theory Spec2Isabelle
  imports Main
begin

section \<open>JavaScript values and strings\<close>

text \<open>
  The values that flow through \<^verbatim>\<open>Storage.js\<close>: the constructor's \<^verbatim>\<open>keyPrefix\<close> is
  \<^verbatim>\<open>undefined\<close>, \<^verbatim>\<open>null\<close> or a string, the backend's multiGet pairs carry a string or
  \<^verbatim>\<open>null\<close>, and \<^verbatim>\<open>setItem\<close> coerces whatever it is given with \<^verbatim>\<open>String(value)\<close>.
  Numbers and objects are left out: their coercion is floating point or user code.
\<close>

datatype jsval = JUndefined | JNull | JBool bool | JStr string

text \<open>\<^verbatim>\<open>String(v)\<close>.\<close>

fun js_String :: "jsval \<Rightarrow> string" where
  "js_String JUndefined = ''undefined''"
| "js_String JNull = ''null''"
| "js_String (JBool b) = (if b then ''true'' else ''false'')"
| "js_String (JStr s) = s"

text \<open>\<^verbatim>\<open>s.startsWith(p)\<close> on two strings.\<close>

fun startsWith :: "string \<Rightarrow> string \<Rightarrow> bool" where
  "startsWith s [] = True"
| "startsWith [] (c # p) = False"
| "startsWith (d # s) (c # p) = (d = c \<and> startsWith s p)"

section \<open>The ECMAScript Map\<close>

text \<open>
  \<^verbatim>\<open>new Map()\<close> keeps its entries in a list, in insertion order. \<^verbatim>\<open>delete\<close> does not
  shorten the list: it empties the entry where it stands (\<open>None\<close> below), so that an
  iterator that is running keeps its position. \<^verbatim>\<open>set\<close> overwrites the value of the
  entry that holds the key, or appends a new entry at the end.
\<close>

type_synonym jsmap = "(string \<times> jsval) option list"

fun jsmap_has :: "jsmap \<Rightarrow> string \<Rightarrow> bool" where
  "jsmap_has [] k = False"
| "jsmap_has (None # es) k = jsmap_has es k"
| "jsmap_has (Some (k', v') # es) k = (if k' = k then True else jsmap_has es k)"

fun jsmap_get :: "jsmap \<Rightarrow> string \<Rightarrow> jsval" where
  "jsmap_get [] k = JUndefined"
| "jsmap_get (None # es) k = jsmap_get es k"
| "jsmap_get (Some (k', v') # es) k = (if k' = k then v' else jsmap_get es k)"

fun jsmap_set :: "jsmap \<Rightarrow> string \<Rightarrow> jsval \<Rightarrow> jsmap" where
  "jsmap_set [] k v = [Some (k, v)]"
| "jsmap_set (None # es) k v = None # jsmap_set es k v"
| "jsmap_set (Some (k', v') # es) k v =
     (if k' = k then Some (k', v) # es else Some (k', v') # jsmap_set es k v)"

fun jsmap_delete :: "jsmap \<Rightarrow> string \<Rightarrow> jsmap" where
  "jsmap_delete [] k = []"
| "jsmap_delete (None # es) k = None # jsmap_delete es k"
| "jsmap_delete (Some (k', v') # es) k =
     (if k' = k then None # es else Some (k', v') # jsmap_delete es k)"

text \<open>The entries that are not emptied, in insertion order.\<close>

fun live :: "jsmap \<Rightarrow> (string \<times> jsval) list" where
  "live [] = []"
| "live (None # es) = live es"
| "live (Some e # es) = e # live es"

text \<open>\<^verbatim>\<open>size\<close> counts them.\<close>

definition jsmap_size :: "jsmap \<Rightarrow> nat" where
  "jsmap_size m = length (live m)"

text \<open>What \<^verbatim>\<open>for (const key of m.keys())\<close> visits when the body leaves the map alone.\<close>

definition jsmap_keys :: "jsmap \<Rightarrow> string list" where
  "jsmap_keys m = map fst (live m)"

section \<open>The Storage instance and its environment\<close>

text \<open>The four primitives of React Native's \<^verbatim>\<open>AsyncStorage\<close> that the class calls.\<close>

datatype backend_call =
    AsyncStorage_getAllKeys
  | AsyncStorage_multiGet "string list"
  | AsyncStorage_setItem string string
  | AsyncStorage_removeItem string

text \<open>
  The promise chain the constructor starts: nothing started, \<^verbatim>\<open>getAllKeys()\<close> pending,
  \<^verbatim>\<open>multiGet(keys)\<close> pending, or over.
\<close>

datatype task_state = NoTask | AwaitingKeys | AwaitingValues "string list" | TaskDone

text \<open>
  \<open>items\<close> and \<open>keyPrefix\<close> are the fields \<^verbatim>\<open>_items\<close> and \<^verbatim>\<open>_keyPrefix\<close> of the instance.
  \<open>task\<close> is the state of the constructor's promise chain and \<open>calls\<close> records every
  \<^verbatim>\<open>AsyncStorage\<close> call issued so far, oldest first.
\<close>

record world =
  items :: jsmap
  keyPrefix :: jsval
  task :: task_state
  calls :: "backend_call list"

text \<open>
  \<^verbatim>\<open>constructor(keyPrefix)\<close>: the test is \<^verbatim>\<open>typeof this._keyPrefix !== 'undefined'\<close>.
\<close>

definition construct :: "jsval \<Rightarrow> world" where
  "construct prefix =
     (if prefix \<noteq> JUndefined
      then \<lparr>items = [], keyPrefix = prefix, task = AwaitingKeys,
            calls = [AsyncStorage_getAllKeys]\<rparr>
      else \<lparr>items = [], keyPrefix = prefix, task = NoTask, calls = []\<rparr>)"

text \<open>\<^verbatim>\<open>getItem(key)\<close>.\<close>

definition getItem :: "world \<Rightarrow> string \<Rightarrow> jsval" where
  "getItem w k = (if jsmap_has (items w) k then jsmap_get (items w) k else JNull)"

text \<open>\<^verbatim>\<open>get length()\<close>.\<close>

definition length_items :: "world \<Rightarrow> nat" where
  "length_items w = jsmap_size (items w)"

text \<open>\<^verbatim>\<open>removeItem(key)\<close>.\<close>

definition removeItem :: "string \<Rightarrow> world \<Rightarrow> world" where
  "removeItem k w =
     (let w' = w\<lparr>items := jsmap_delete (items w) k\<rparr>
      in if keyPrefix w' = JUndefined then w'
         else w'\<lparr>calls := calls w' @ [AsyncStorage_removeItem (js_String (keyPrefix w') @ k)]\<rparr>)"

text \<open>\<^verbatim>\<open>setItem(key, value)\<close>.\<close>

definition setItem :: "string \<Rightarrow> jsval \<Rightarrow> world \<Rightarrow> world" where
  "setItem k v w =
     (let val = js_String v;
          w' = w\<lparr>items := jsmap_set (items w) k (JStr val)\<rparr>
      in if keyPrefix w' = JUndefined then w'
         else w'\<lparr>calls := calls w' @ [AsyncStorage_setItem (js_String (keyPrefix w') @ k) val]\<rparr>)"

text \<open>
  \<^verbatim>\<open>clear()\<close>: \<^verbatim>\<open>for (const key of this._items.keys()) this.removeItem(key)\<close>. The iterator
  walks the live entry list by index, skips emptied entries and reads the list's
  length again after each round of the body, so the deletions the body makes are seen.
\<close>

function clear_loop :: "nat \<Rightarrow> world \<Rightarrow> world" where
  "clear_loop index w =
     (if index < length (items w)
      then (case items w ! index of
              None \<Rightarrow> clear_loop (Suc index) w
            | Some (k, v) \<Rightarrow> clear_loop (Suc index) (removeItem k w))
      else w)"
  by pat_completeness auto
termination
proof -
  have len: "length (jsmap_delete m k) = length m" for m k
    by (induction m k rule: jsmap_delete.induct) auto
  show ?thesis
    by (relation "measure (\<lambda>(index, w). length (items w) - index)")
       (auto simp: removeItem_def Let_def len)
qed

declare clear_loop.simps [simp del]

definition clear :: "world \<Rightarrow> world" where
  "clear w = clear_loop 0 w"

text \<open>
  \<^verbatim>\<open>key(n)\<close>: \<^verbatim>\<open>for (const key in this._items.keys())\<close>. A \<^verbatim>\<open>for...in\<close> statement walks
  the enumerable string-named properties of the object it is given and of its
  prototypes. The object here is the iterator that \<^verbatim>\<open>keys()\<close> returns, not the keys it
  would yield. A Map iterator has no own property; its prototype has the method
  \<^verbatim>\<open>next\<close> and the symbol \<^verbatim>\<open>@@toStringTag\<close>, the iterator prototype above it has the
  symbol \<^verbatim>\<open>@@iterator\<close>, and none of them is enumerable, no more than the methods of
  \<^verbatim>\<open>Object.prototype\<close> at the end of the chain.
\<close>

datatype property_key = Named string | Symbol string

text \<open>The properties along the prototype chain, each with its enumerable flag.\<close>

definition map_iterator_properties :: "jsmap \<Rightarrow> (property_key \<times> bool) list" where
  "map_iterator_properties m =
     [(Named ''next'', False), (Symbol ''toStringTag'', False), (Symbol ''iterator'', False),
      (Named ''constructor'', False), (Named ''hasOwnProperty'', False),
      (Named ''isPrototypeOf'', False), (Named ''propertyIsEnumerable'', False),
      (Named ''toLocaleString'', False), (Named ''toString'', False),
      (Named ''valueOf'', False)]"

fun for_in_names :: "(property_key \<times> bool) list \<Rightarrow> string list" where
  "for_in_names [] = []"
| "for_in_names ((Named n, True) # ps) = n # for_in_names ps"
| "for_in_names (p # ps) = for_in_names ps"

fun key_loop :: "string list \<Rightarrow> int \<Rightarrow> int \<Rightarrow> jsval" where
  "key_loop [] i n = JUndefined"
| "key_loop (k # ks) i n = (if i = n then JStr k else key_loop ks (i + 1) n)"

definition key :: "world \<Rightarrow> int \<Rightarrow> jsval" where
  "key w n = key_loop (for_in_names (map_iterator_properties (items w))) 0 n"

subsection \<open>The reconciliation callbacks\<close>

text \<open>
  The start index that \<^verbatim>\<open>key.substring(keyPrefixLength)\<close> uses, where
  \<^verbatim>\<open>keyPrefixLength = this._keyPrefix && this._keyPrefix.length\<close>: the length of a
  non-empty string; the empty string, \<^verbatim>\<open>null\<close>, \<^verbatim>\<open>false\<close> and the \<^verbatim>\<open>undefined\<close> that
  \<^verbatim>\<open>true.length\<close> gives all convert to index 0.
\<close>

fun keyPrefixLength :: "jsval \<Rightarrow> nat" where
  "keyPrefixLength (JStr p) = length p"
| "keyPrefixLength JNull = 0"
| "keyPrefixLength JUndefined = 0"
| "keyPrefixLength (JBool b) = 0"

text \<open>The loop \<^verbatim>\<open>for (let [ key, value ] of result)\<close> of the multiGet callback.\<close>

fun merge_loop :: "nat \<Rightarrow> (string \<times> jsval) list \<Rightarrow> jsmap \<Rightarrow> jsmap" where
  "merge_loop n [] m = m"
| "merge_loop n ((k, v) # result) m =
     (let k' = drop n k
      in merge_loop n result (if \<not> jsmap_has m k' then jsmap_set m k' v else m))"

text \<open>
  The callback given to \<^verbatim>\<open>AsyncStorage.getAllKeys().then\<close>: it filters the keys with
  \<^verbatim>\<open>key.startsWith(this._keyPrefix)\<close> (which converts its argument to a string) and
  calls \<^verbatim>\<open>multiGet\<close>.
\<close>

definition getAllKeysCallback :: "string list \<Rightarrow> world \<Rightarrow> world" where
  "getAllKeysCallback allKeys w =
     (let keys = filter (\<lambda>k. startsWith k (js_String (keyPrefix w))) allKeys
      in w\<lparr>task := AwaitingValues keys, calls := calls w @ [AsyncStorage_multiGet keys]\<rparr>)"

text \<open>The callback given to \<^verbatim>\<open>AsyncStorage.multiGet(keys).then\<close>.\<close>

definition multiGetCallback :: "(string \<times> jsval) list \<Rightarrow> world \<Rightarrow> world" where
  "multiGetCallback result w =
     w\<lparr>items := merge_loop (keyPrefixLength (keyPrefix w)) result (items w),
       task := TaskDone\<rparr>"

subsection \<open>Events\<close>

text \<open>
  JavaScript runs one callback at a time, so a run of the program is a sequence of
  events, each executed whole: a call of a method by the caller, or the settlement of
  a promise by the backend. A promise is fulfilled with a value (\<open>Some\<close>) or rejected
  (\<open>None\<close>). The class attaches only fulfilment callbacks, and only to the two
  promises of the constructor; the promises that \<^verbatim>\<open>AsyncStorage.setItem\<close> and
  \<^verbatim>\<open>AsyncStorage.removeItem\<close> return are dropped. A settlement that finds no pending
  promise of its kind does nothing: a promise settles once.
\<close>

datatype event =
    SetItem string jsval
  | RemoveItem string
  | Clear
  | GetItem string
  | Key int
  | Length
  | GetAllKeysSettled "string list option"
  | MultiGetSettled "(string \<times> jsval) list option"
  | WriteSettled bool

fun step :: "event \<Rightarrow> world \<Rightarrow> world" where
  "step (SetItem k v) w = setItem k v w"
| "step (RemoveItem k) w = removeItem k w"
| "step Clear w = clear w"
| "step (GetItem k) w = w"
| "step (Key n) w = w"
| "step Length w = w"
| "step (GetAllKeysSettled r) w =
     (case task w of
        AwaitingKeys \<Rightarrow>
          (case r of Some allKeys \<Rightarrow> getAllKeysCallback allKeys w
                   | None \<Rightarrow> w\<lparr>task := TaskDone\<rparr>)
      | _ \<Rightarrow> w)"
| "step (MultiGetSettled r) w =
     (case task w of
        AwaitingValues keys \<Rightarrow>
          (case r of Some result \<Rightarrow> multiGetCallback result w
                   | None \<Rightarrow> w\<lparr>task := TaskDone\<rparr>)
      | _ \<Rightarrow> w)"
| "step (WriteSettled ok) w = w"

fun run :: "event list \<Rightarrow> world \<Rightarrow> world" where
  "run [] w = w"
| "run (e # es) w = run es (step e w)"

subsection \<open>A backend that answers\<close>

text \<open>
  \<^verbatim>\<open>AsyncStorage\<close> belongs to React Native, not to this class. For the scenarios that
  speak of what the backend holds, it is a list of key and value pairs: \<^verbatim>\<open>getAllKeys\<close>
  is fulfilled with every key, \<^verbatim>\<open>multiGet\<close> with one pair per requested key, whose value
  is \<^verbatim>\<open>null\<close> when the key is not stored.
\<close>

type_synonym backend = "(string \<times> string) list"

definition backend_getAllKeys :: "backend \<Rightarrow> string list" where
  "backend_getAllKeys st = map fst st"

definition backend_multiGet :: "backend \<Rightarrow> string list \<Rightarrow> (string \<times> jsval) list" where
  "backend_multiGet st keys =
     map (\<lambda>k. (k, case map_of st k of Some v \<Rightarrow> JStr v | None \<Rightarrow> JNull)) keys"

text \<open>The backend fulfils the promise that is pending, from what it holds.\<close>

definition answer :: "backend \<Rightarrow> world \<Rightarrow> world" where
  "answer st w =
     (case task w of
        AwaitingKeys \<Rightarrow> step (GetAllKeysSettled (Some (backend_getAllKeys st))) w
      | AwaitingValues keys \<Rightarrow> step (MultiGetSettled (Some (backend_multiGet st keys))) w
      | _ \<Rightarrow> w)"

subsection \<open>The mapping that the specification speaks of\<close>

text \<open>The content of \<open>items\<close> as a finite mapping from keys to values.\<close>

definition view :: "world \<Rightarrow> (string \<rightharpoonup> jsval)" where
  "view w = map_of (live (items w))"

text \<open>
  The entries of a multiGet result under their logical keys, the first pair of a key
  standing for it.
\<close>

definition loaded :: "jsval \<Rightarrow> (string \<times> jsval) list \<Rightarrow> (string \<rightharpoonup> jsval)" where
  "loaded prefix result =
     map_of (map (\<lambda>(k, v). (drop (keyPrefixLength prefix) k, v)) result)"

text \<open>
  What the specification says each event does to the mapping: a caller's write sets
  its key, a removal deletes it, \<^verbatim>\<open>clear\<close> empties the mapping, the merge adds the loaded
  entries whose keys the mapping does not hold (in \<open>m1 ++ m2\<close> the entries of \<open>m2\<close>
  win), and nothing else changes it.
\<close>

fun spec_effect :: "event \<Rightarrow> world \<Rightarrow> (string \<rightharpoonup> jsval) \<Rightarrow> (string \<rightharpoonup> jsval)" where
  "spec_effect (SetItem k v) w m = m(k \<mapsto> JStr (js_String v))"
| "spec_effect (RemoveItem k) w m = m(k := None)"
| "spec_effect Clear w m = Map.empty"
| "spec_effect (MultiGetSettled (Some result)) w m =
     (case task w of
        AwaitingValues keys \<Rightarrow> loaded (keyPrefix w) result ++ m
      | _ \<Rightarrow> m)"
| "spec_effect e w m = m"

text \<open>The specification's mapping after a sequence of events.\<close>

fun spec_run :: "event list \<Rightarrow> world \<Rightarrow> (string \<rightharpoonup> jsval) \<Rightarrow> (string \<rightharpoonup> jsval)" where
  "spec_run [] w m = m"
| "spec_run (e # es) w m = spec_run es (step e w) (spec_effect e w m)"

text \<open>The caller's operations that decide whether a key is present.\<close>

fun touches :: "string \<Rightarrow> event \<Rightarrow> bool" where
  "touches k (SetItem k' v) = (k' = k)"
| "touches k (RemoveItem k') = (k' = k)"
| "touches k Clear = True"
| "touches k e = False"

text \<open>The events that are calls of the caller.\<close>

fun is_call :: "event \<Rightarrow> bool" where
  "is_call (GetAllKeysSettled r) = False"
| "is_call (MultiGetSettled r) = False"
| "is_call (WriteSettled ok) = False"
| "is_call e = True"

section \<open>The Map operations as a finite mapping\<close>

lemma jsmap_has_live: "jsmap_has m k \<longleftrightarrow> map_of (live m) k \<noteq> None"
  by (induction m k rule: jsmap_has.induct) auto

lemma jsmap_get_live:
  "jsmap_get m k = (case map_of (live m) k of Some v \<Rightarrow> v | None \<Rightarrow> JUndefined)"
  by (induction m k rule: jsmap_get.induct) auto

lemma getItem_view: "getItem w k = (case view w k of Some v \<Rightarrow> v | None \<Rightarrow> JNull)"
  by (auto simp: getItem_def view_def jsmap_has_live jsmap_get_live split: option.splits)

lemma map_of_live_set:
  "map_of (live (jsmap_set m k v)) = (map_of (live m))(k \<mapsto> v)"
  by (induction m k v rule: jsmap_set.induct) (auto simp: fun_eq_iff)

lemma map_of_live_delete_other:
  "k' \<noteq> k \<Longrightarrow> map_of (live (jsmap_delete m k)) k' = map_of (live m) k'"
  by (induction m k rule: jsmap_delete.induct) auto

lemma live_delete_subset:
  "e \<in> set (live (jsmap_delete m k)) \<Longrightarrow> e \<in> set (live m)"
  by (induction m k rule: jsmap_delete.induct) (auto split: if_splits)

lemma distinct_live_delete:
  "distinct (map fst (live m)) \<Longrightarrow> distinct (map fst (live (jsmap_delete m k)))"
  by (induction m k rule: jsmap_delete.induct)
     (auto simp: image_iff dest: live_delete_subset)

lemma map_of_live_delete:
  "distinct (map fst (live m)) \<Longrightarrow>
   map_of (live (jsmap_delete m k)) = (map_of (live m))(k := None)"
  by (induction m k rule: jsmap_delete.induct)
     (auto simp: fun_eq_iff map_of_eq_None_iff image_iff)

lemma live_set_absent:
  "\<not> jsmap_has m k \<Longrightarrow> live (jsmap_set m k v) = live m @ [(k, v)]"
  by (induction m k v rule: jsmap_set.induct) (auto split: if_splits)

lemma keys_set:
  "fst ` set (live (jsmap_set m k v)) = insert k (fst ` set (live m))"
  by (induction m k v rule: jsmap_set.induct) auto

lemma distinct_live_set:
  "distinct (map fst (live m)) \<Longrightarrow> distinct (map fst (live (jsmap_set m k v)))"
  by (induction m k v rule: jsmap_set.induct) (auto simp: keys_set)

lemma jsmap_delete_first:
  "\<forall>j<i. m ! j = None \<Longrightarrow> i < length m \<Longrightarrow> m ! i = Some (k, v) \<Longrightarrow>
   jsmap_delete m k = m[i := None]"
proof (induction m arbitrary: i)
  case Nil
  then show ?case by simp
next
  case (Cons e es)
  show ?case
  proof (cases i)
    case 0
    with Cons.prems show ?thesis by simp
  next
    case (Suc i')
    with Cons.prems have e: "e = None" by auto
    from Cons.prems Suc have "\<forall>j<i'. es ! j = None" by auto
    with Cons.IH[of i'] Cons.prems Suc have "jsmap_delete es k = es[i' := None]" by simp
    with e Suc show ?thesis by simp
  qed
qed


section \<open>The methods and the callbacks\<close>

lemma removeItem_fields:
  "items (removeItem k w) = jsmap_delete (items w) k"
  "keyPrefix (removeItem k w) = keyPrefix w"
  "task (removeItem k w) = task w"
  by (simp_all add: removeItem_def Let_def)

lemma setItem_fields:
  "items (setItem k v w) = jsmap_set (items w) k (JStr (js_String v))"
  "keyPrefix (setItem k v w) = keyPrefix w"
  "task (setItem k v w) = task w"
  by (simp_all add: setItem_def Let_def)

lemma length_jsmap_delete: "length (jsmap_delete m k) = length m"
  by (induction m k rule: jsmap_delete.induct) auto

lemma clear_loop_items:
  "\<forall>j<i. items w ! j = None \<Longrightarrow>
   items (clear_loop i w) = replicate (length (items w)) None"
proof (induction i w rule: clear_loop.induct)
  case (1 index w)
  show ?case
  proof (cases "index < length (items w)")
    case False
    with "1.prems" have "\<forall>j<length (items w). items w ! j = None" by simp
    then have "items w = replicate (length (items w)) None"
      by (simp add: list_eq_iff_nth_eq)
    with False show ?thesis by (subst clear_loop.simps) simp
  next
    case True
    show ?thesis
    proof (cases "items w ! index")
      case None
      with "1.prems" have "\<forall>j<Suc index. items w ! j = None"
        by (simp add: less_Suc_eq)
      with "1.IH"(1)[OF True None] True None show ?thesis
        by (subst clear_loop.simps) simp
    next
      case (Some e)
      obtain k v where e: "e = (k, v)" by (cases e)
      have del: "items (removeItem k w) = (items w)[index := None]"
        using jsmap_delete_first[OF "1.prems" True] Some e
        by (simp add: removeItem_fields)
      with "1.prems" True have "\<forall>j<Suc index. items (removeItem k w) ! j = None"
        by (simp add: less_Suc_eq nth_list_update)
      with "1.IH"(2)[OF True Some e[symmetric]] del True Some e show ?thesis
        by (subst clear_loop.simps) simp
    qed
  qed
qed

lemma clear_loop_frame:
  "keyPrefix (clear_loop i w) = keyPrefix w \<and> task (clear_loop i w) = task w"
proof (induction i w rule: clear_loop.induct)
  case (1 index w)
  show ?case
    using "1.IH"
    by (subst (1 2) clear_loop.simps)
       (auto simp: removeItem_fields split: option.splits prod.splits)
qed

lemma clear_loop_silent:
  "keyPrefix w = JUndefined \<Longrightarrow> calls (clear_loop i w) = calls w"
proof (induction i w rule: clear_loop.induct)
  case (1 index w)
  show ?case
    using "1.IH" "1.prems"
    by (subst clear_loop.simps)
       (auto simp: removeItem_def Let_def split: option.splits prod.splits)
qed

lemma items_clear: "items (clear w) = replicate (length (items w)) None"
  using clear_loop_items[of 0 w] by (simp add: clear_def)

lemma live_replicate_None: "live (replicate n None) = []"
  by (induction n) auto

lemma merge_loop_lookup:
  "map_of (live (merge_loop n result m)) =
   map_of (map (\<lambda>(k, v). (drop n k, v)) result) ++ map_of (live m)"
proof (induction result arbitrary: m)
  case Nil
  then show ?case by simp
next
  case (Cons p result)
  obtain k v where p: "p = (k, v)" by (cases p)
  show ?case
    unfolding p
    by (auto simp: Cons.IH Let_def map_of_live_set jsmap_has_live fun_eq_iff map_add_def
             split: option.splits)
qed

lemma merge_loop_distinct:
  "distinct (map fst (live m)) \<Longrightarrow> distinct (map fst (live (merge_loop n result m)))"
  by (induction result arbitrary: m) (auto simp: Let_def distinct_live_set)

lemma merge_loop_extends: "\<exists>xs. live (merge_loop n result m) = live m @ xs"
proof (induction result arbitrary: m)
  case Nil
  then show ?case by simp
next
  case (Cons p result)
  obtain k v where p: "p = (k, v)" by (cases p)
  show ?case
  proof (cases "jsmap_has m (drop n k)")
    case True
    with Cons.IH[of m] p show ?thesis by simp
  next
    case False
    from Cons.IH[of "jsmap_set m (drop n k) v"] obtain xs where
      "live (merge_loop n result (jsmap_set m (drop n k) v)) = live (jsmap_set m (drop n k) v) @ xs"
      by blast
    with False p show ?thesis by (simp add: live_set_absent)
  qed
qed


lemma run_append: "run (xs @ ys) w = run ys (run xs w)"
  by (induction xs arbitrary: w) auto

lemma view_clear: "view (clear w) = Map.empty"
  by (simp add: view_def items_clear live_replicate_None)

lemma frame_clear: "keyPrefix (clear w) = keyPrefix w" "task (clear w) = task w"
  by (simp_all add: clear_def clear_loop_frame)

lemma view_multiGetCallback:
  "view (multiGetCallback result w) = loaded (keyPrefix w) result ++ view w"
  by (simp add: view_def multiGetCallback_def loaded_def merge_loop_lookup)

lemma view_getAllKeysCallback: "view (getAllKeysCallback allKeys w) = view w"
  by (simp add: view_def getAllKeysCallback_def Let_def)

lemma view_task_update: "view (w\<lparr>task := t\<rparr>) = view w"
  by (simp add: view_def)

lemma view_setItem: "view (setItem k v w) = (view w)(k \<mapsto> JStr (js_String v))"
  by (simp add: view_def setItem_fields map_of_live_set)

lemma view_removeItem_other: "k' \<noteq> k \<Longrightarrow> view (removeItem k w) k' = view w k'"
  by (simp add: view_def removeItem_fields map_of_live_delete_other)

lemma view_removeItem:
  "distinct (jsmap_keys (items w)) \<Longrightarrow> view (removeItem k w) = (view w)(k := None)"
  by (simp add: view_def removeItem_fields map_of_live_delete jsmap_keys_def)

lemma step_refines:
  "distinct (jsmap_keys (items w)) \<Longrightarrow> view (step e w) = spec_effect e w (view w)"
proof (cases e)
  case (MultiGetSettled r)
  then show ?thesis
    by (cases r; cases "task w")
       (simp_all add: view_multiGetCallback view_task_update)
next
  case (GetAllKeysSettled r)
  then show ?thesis
    by (cases r; cases "task w")
       (simp_all add: view_getAllKeysCallback view_task_update)
qed (simp_all add: view_setItem view_removeItem view_clear)

lemma step_distinct:
  assumes d: "distinct (jsmap_keys (items w))"
  shows "distinct (jsmap_keys (items (step e w)))"
proof (cases e)
  case (MultiGetSettled r)
  with d show ?thesis
    by (cases r; cases "task w")
       (simp_all add: multiGetCallback_def jsmap_keys_def merge_loop_distinct)
next
  case (GetAllKeysSettled r)
  with d show ?thesis
    by (cases r; cases "task w") (simp_all add: getAllKeysCallback_def Let_def)
qed (use d in \<open>simp_all add: jsmap_keys_def setItem_fields removeItem_fields items_clear
       live_replicate_None distinct_live_set distinct_live_delete\<close>)

lemma run_distinct:
  "distinct (jsmap_keys (items w)) \<Longrightarrow> distinct (jsmap_keys (items (run evs w)))"
  by (induction evs arbitrary: w) (auto simp: step_distinct)

lemma construct_distinct: "distinct (jsmap_keys (items (construct prefix)))"
  by (simp add: construct_def jsmap_keys_def)

lemma run_refines:
  "distinct (jsmap_keys (items w)) \<Longrightarrow> view (run evs w) = spec_run evs w (view w)"
  by (induction evs arbitrary: w) (auto simp: step_distinct step_refines)

section \<open>The state invariant\<close>

text \<open>
  C2, as amended. In every state reached from the constructor by any sequence of caller
  calls and promise settlements, \<open>items\<close> is the mapping the specification describes:
  each \<^verbatim>\<open>setItem\<close> sets its key, each \<^verbatim>\<open>removeItem\<close> deletes its key, \<^verbatim>\<open>clear\<close> empties
  the mapping, and the merge adds the loaded entries under the keys that \<open>items\<close> does
  not hold at the moment it runs. A key that the caller has set is therefore never
  overwritten by the merge; a key that the caller has removed before the merge is
  absent at the merge and is loaded again.
\<close>

theorem items_is_spec_mapping:
  "view (run evs (construct prefix)) = spec_run evs (construct prefix) Map.empty"
proof -
  have "view (construct prefix) = Map.empty"
    by (simp add: view_def construct_def)
  with run_refines[OF construct_distinct, of evs prefix] show ?thesis by simp
qed

text \<open>
  The claim as first stated gives removals precedence too. With the backend holding
  \<^verbatim>\<open>("pa", "old")\<close>, the caller sets and then removes \<^verbatim>\<open>"a"\<close> before the merge runs; the
  merge finds \<^verbatim>\<open>"a"\<close> absent and loads \<^verbatim>\<open>"old"\<close>.
\<close>

theorem removal_before_merge_is_undone:
  "getItem (run [GetAllKeysSettled (Some [''pa'']), SetItem ''a'' (JStr ''new''),
                 RemoveItem ''a'', MultiGetSettled (Some [(''pa'', JStr ''old'')])]
             (construct (JStr ''p''))) ''a'' = JStr ''old''"
  by (simp add: construct_def getAllKeysCallback_def multiGetCallback_def setItem_def
        removeItem_def getItem_def Let_def)

section \<open>The caller's write wins the race\<close>

lemma step_keeps_present:
  "view w k = Some x \<Longrightarrow> \<not> touches k e \<Longrightarrow> view (step e w) k = Some x"
proof (cases e)
  case (MultiGetSettled r)
  assume "view w k = Some x"
  with MultiGetSettled show ?thesis
    by (cases r; cases "task w")
       (simp_all add: view_multiGetCallback view_task_update map_add_def)
next
  case (GetAllKeysSettled r)
  assume "view w k = Some x"
  with GetAllKeysSettled show ?thesis
    by (cases r; cases "task w")
       (simp_all add: view_getAllKeysCallback view_task_update)
qed (auto simp: view_setItem view_removeItem_other)

lemma run_keeps_present:
  "view w k = Some x \<Longrightarrow> \<forall>e\<in>set es. \<not> touches k e \<Longrightarrow> view (run es w) k = Some x"
  by (induction es arbitrary: w) (auto simp: step_keeps_present)

text \<open>
  C1. Once the caller has called \<^verbatim>\<open>setItem(a, v)\<close>, and as long as the caller itself does
  not set \<^verbatim>\<open>a\<close> again, remove it or clear the storage, \<^verbatim>\<open>getItem(a)\<close> returns \<^verbatim>\<open>String(v)\<close>:
  whatever the state before, whatever settles before or after the call, and whatever
  the backend delivers, the merge step never overwrites the key.
\<close>

theorem caller_write_wins:
  assumes "\<forall>e\<in>set post. \<not> touches a e"
  shows "getItem (run (pre @ SetItem a v # post) w) a = JStr (js_String v)"
proof -
  have "view (setItem a v (run pre w)) a = Some (JStr (js_String v))"
    by (simp add: view_setItem)
  from run_keeps_present[OF this assms]
  show ?thesis by (simp add: run_append getItem_view)
qed

text \<open>
  The scenario of the specification: prefix \<^verbatim>\<open>"p"\<close>, the backend holds \<^verbatim>\<open>("pa", "old")\<close>,
  the caller writes \<^verbatim>\<open>"new"\<close> between the two settlements.
\<close>

theorem caller_write_wins_witness:
  "\<not> touches ''a'' (MultiGetSettled (Some (backend_multiGet [(''pa'', ''old'')] [''pa''])))
   \<and> getItem (run [GetAllKeysSettled (Some (backend_getAllKeys [(''pa'', ''old'')])),
                    SetItem ''a'' (JStr ''new''),
                    MultiGetSettled (Some (backend_multiGet [(''pa'', ''old'')] [''pa'']))]
                (construct (JStr ''p''))) ''a'' = JStr ''new''"
proof -
  have h: "\<forall>e\<in>set [MultiGetSettled (Some (backend_multiGet [(''pa'', ''old'')] [''pa'']))].
             \<not> touches ''a'' e"
    by simp
  from caller_write_wins[OF h, of "[GetAllKeysSettled (Some (backend_getAllKeys [(''pa'', ''old'')]))]"
      "JStr ''new''" "construct (JStr ''p'')"]
  show ?thesis by simp
qed

section \<open>Reading a written key\<close>

lemma jsmap_has_set_same: "jsmap_has (jsmap_set m k v) k"
  by (induction m k v rule: jsmap_set.induct) auto

lemma jsmap_get_set_same: "jsmap_get (jsmap_set m k v) k = v"
  by (induction m k v rule: jsmap_set.induct) auto

text \<open>
  C3. In every state of the instance and of its environment, \<^verbatim>\<open>setItem(k, v)\<close> followed
  at once by \<^verbatim>\<open>getItem(k)\<close> returns \<^verbatim>\<open>String(v)\<close>.
\<close>

theorem setItem_then_getItem: "getItem (setItem k v w) k = JStr (js_String v)"
  by (simp add: getItem_def setItem_def Let_def jsmap_has_set_same jsmap_get_set_same)

section \<open>Reconciliation loads the prefixed keys and strips the prefix\<close>

lemma startsWith_take: "startsWith s p \<longleftrightarrow> take (length p) s = p"
  by (induction s p rule: startsWith.induct) auto

lemma map_of_stripped:
  "\<forall>q\<in>set keys. take (length p) q = p \<Longrightarrow>
   map_of (map (\<lambda>(q, v). (drop (length p) q, v)) (map (\<lambda>q. (q, f q)) keys)) k =
   (if p @ k \<in> set keys then Some (f (p @ k)) else None)"
proof (induction keys)
  case Nil
  then show ?case by simp
next
  case (Cons q keys)
  from Cons.prems have q: "take (length p) q = p" by simp
  have "drop (length p) q = k \<longleftrightarrow> q = p @ k"
  proof
    assume "drop (length p) q = k"
    with q append_take_drop_id[of "length p" q] show "q = p @ k" by simp
  next
    assume "q = p @ k"
    then show "drop (length p) q = k" by simp
  qed
  with Cons show ?case by auto
qed

lemma view_reconciled:
  "view (answer st (answer st (construct (JStr p)))) k =
   (case map_of st (p @ k) of Some v \<Rightarrow> Some (JStr v) | None \<Rightarrow> None)"
proof -
  let ?keys = "filter (\<lambda>q. startsWith q p) (map fst st)"
  let ?f = "\<lambda>q. case map_of st q of Some v \<Rightarrow> JStr v | None \<Rightarrow> JNull"
  have pre: "\<forall>q\<in>set ?keys. take (length p) q = p"
    by (simp add: startsWith_take)
  have w1: "answer st (construct (JStr p)) =
        \<lparr>items = [], keyPrefix = JStr p, task = AwaitingValues ?keys,
         calls = [AsyncStorage_getAllKeys, AsyncStorage_multiGet ?keys]\<rparr>"
    by (simp add: answer_def construct_def getAllKeysCallback_def backend_getAllKeys_def
          Let_def)
  have "view (answer st (answer st (construct (JStr p)))) =
        loaded (JStr p) (backend_multiGet st ?keys) ++ Map.empty"
    unfolding w1 by (simp add: answer_def view_multiGetCallback) (simp add: view_def)
  then have "view (answer st (answer st (construct (JStr p)))) k =
        (if p @ k \<in> set ?keys then Some (?f (p @ k)) else None)"
    using map_of_stripped[OF pre, of ?f k]
    by (simp add: loaded_def backend_multiGet_def)
  moreover have "p @ k \<in> set ?keys \<longleftrightarrow> map_of st (p @ k) \<noteq> None"
    by (simp add: startsWith_take map_of_eq_None_iff)
  ultimately show ?thesis by (auto split: option.splits)
qed

text \<open>
  C4. An instance is constructed with the string prefix \<open>p\<close> over a backend that holds
  \<open>st\<close>, and the two promises are fulfilled with no caller call in between. Then
  \<^verbatim>\<open>getItem(k)\<close> returns the value the backend holds under \<open>p @ k\<close>, and \<^verbatim>\<open>null\<close> when it
  holds none: the keys of \<open>items\<close> are exactly the backend keys that start with the prefix,
  with the prefix taken off.
\<close>

theorem reconciliation_strips_prefix:
  "getItem (answer st (answer st (construct (JStr p)))) k =
     (case map_of st (p @ k) of Some v \<Rightarrow> JStr v | None \<Rightarrow> JNull)
   \<and> (jsmap_has (items (answer st (answer st (construct (JStr p))))) k
        \<longleftrightarrow> p @ k \<in> set (backend_getAllKeys st))"
proof -
  have "jsmap_has (items (answer st (answer st (construct (JStr p))))) k
        \<longleftrightarrow> view (answer st (answer st (construct (JStr p)))) k \<noteq> None"
    by (simp add: view_def jsmap_has_live)
  moreover have "map_of st (p @ k) \<noteq> None \<longleftrightarrow> p @ k \<in> set (backend_getAllKeys st)"
    by (simp add: backend_getAllKeys_def map_of_eq_None_iff)
  ultimately show ?thesis
    by (auto simp: getItem_view view_reconciled split: option.splits)
qed

text \<open>The scenario of the specification: \<^verbatim>\<open>("px","1")\<close>, \<^verbatim>\<open>("py","2")\<close>, \<^verbatim>\<open>("qz","3")\<close>.\<close>

theorem reconciliation_strips_prefix_witness:
  "getItem (answer [(''px'', ''1''), (''py'', ''2''), (''qz'', ''3'')]
             (answer [(''px'', ''1''), (''py'', ''2''), (''qz'', ''3'')]
               (construct (JStr ''p'')))) ''x'' = JStr ''1''
   \<and> getItem (answer [(''px'', ''1''), (''py'', ''2''), (''qz'', ''3'')]
             (answer [(''px'', ''1''), (''py'', ''2''), (''qz'', ''3'')]
               (construct (JStr ''p'')))) ''y'' = JStr ''2''
   \<and> getItem (answer [(''px'', ''1''), (''py'', ''2''), (''qz'', ''3'')]
             (answer [(''px'', ''1''), (''py'', ''2''), (''qz'', ''3'')]
               (construct (JStr ''p'')))) ''z'' = JNull
   \<and> jsmap_keys (items (answer [(''px'', ''1''), (''py'', ''2''), (''qz'', ''3'')]
             (answer [(''px'', ''1''), (''py'', ''2''), (''qz'', ''3'')]
               (construct (JStr ''p''))))) = [''x'', ''y'']"
  using reconciliation_strips_prefix[of "[(''px'', ''1''), (''py'', ''2''), (''qz'', ''3'')]" "''p''" "''x''"]
        reconciliation_strips_prefix[of "[(''px'', ''1''), (''py'', ''2''), (''qz'', ''3'')]" "''p''" "''y''"]
        reconciliation_strips_prefix[of "[(''px'', ''1''), (''py'', ''2''), (''qz'', ''3'')]" "''p''" "''z''"]
  by (simp add: jsmap_keys_def answer_def construct_def getAllKeysCallback_def
        multiGetCallback_def backend_getAllKeys_def backend_multiGet_def Let_def)

section \<open>The key at a position\<close>

lemma key_is_undefined: "key w n = JUndefined"
  by (simp add: key_def map_iterator_properties_def)

text \<open>
  C5. The claim is that \<^verbatim>\<open>key(n)\<close> returns the key at position \<open>n\<close> of the insertion
  order. The storage below holds the one key \<^verbatim>\<open>"a"\<close>, and \<^verbatim>\<open>key(0)\<close> returns \<^verbatim>\<open>undefined\<close>:
  the loop of \<^verbatim>\<open>key\<close> is a \<^verbatim>\<open>for...in\<close> over the iterator object, whose body never runs.
\<close>

theorem key_of_present_position_is_undefined:
  "jsmap_keys (items (setItem ''a'' (JStr ''1'') (construct JUndefined))) = [''a'']
   \<and> key (setItem ''a'' (JStr ''1'') (construct JUndefined)) 0 = JUndefined"
  by (simp add: jsmap_keys_def setItem_def construct_def key_def map_iterator_properties_def
        Let_def)

section \<open>Clearing\<close>

text \<open>
  C6. In every state, after \<^verbatim>\<open>clear()\<close> the length is 0 and \<^verbatim>\<open>getItem\<close> returns \<^verbatim>\<open>null\<close> for
  every key: the iterator of \<^verbatim>\<open>clear\<close> reaches every entry although each round deletes
  the entry it stands on.
\<close>

theorem clear_empties_storage:
  "length_items (clear w) = 0 \<and> getItem (clear w) k = JNull"
  by (simp add: length_items_def jsmap_size_def getItem_def items_clear live_replicate_None
        jsmap_has_live)

text \<open>After three writes, one of them an overwrite.\<close>

theorem clear_empties_storage_witness:
  "length_items (run [SetItem ''a'' (JStr ''1''), SetItem ''b'' (JBool True),
                      SetItem ''a'' JNull] (construct (JStr ''p''))) = 2
   \<and> length_items (clear (run [SetItem ''a'' (JStr ''1''), SetItem ''b'' (JBool True),
                      SetItem ''a'' JNull] (construct (JStr ''p'')))) = 0
   \<and> getItem (clear (run [SetItem ''a'' (JStr ''1''), SetItem ''b'' (JBool True),
                      SetItem ''a'' JNull] (construct (JStr ''p'')))) ''a'' = JNull"
  using clear_empties_storage[of "run [SetItem ''a'' (JStr ''1''), SetItem ''b'' (JBool True),
                      SetItem ''a'' JNull] (construct (JStr ''p''))" "''a''"]
  by (simp add: length_items_def jsmap_size_def setItem_def construct_def Let_def)

section \<open>Without a prefix the backend is never called\<close>

lemma step_silent:
  assumes "keyPrefix w = JUndefined" and "task w = NoTask" and "calls w = []"
  shows "keyPrefix (step e w) = JUndefined \<and> task (step e w) = NoTask \<and> calls (step e w) = []"
  using assms
  by (cases e)
     (simp_all add: setItem_def removeItem_def Let_def clear_def clear_loop_frame
        clear_loop_silent)

lemma run_silent:
  "keyPrefix w = JUndefined \<Longrightarrow> task w = NoTask \<Longrightarrow> calls w = [] \<Longrightarrow>
   calls (run evs w) = []"
proof (induction evs arbitrary: w)
  case Nil
  then show ?case by simp
next
  case (Cons e evs)
  from step_silent[OF Cons.prems, of e] Cons.IH[of "step e w"] show ?case by simp
qed

text \<open>
  C7. An instance constructed with \<^verbatim>\<open>keyPrefix\<close> undefined has issued no backend call
  after the constructor, and none after any sequence of caller calls and settlements.
\<close>

theorem no_prefix_no_backend_call: "calls (run evs (construct JUndefined)) = []"
  by (rule run_silent) (simp_all add: construct_def)

section \<open>Failures of the backend\<close>

lemma step_keyPrefix: "keyPrefix (step e w) = keyPrefix w"
proof (cases e)
  case (GetAllKeysSettled r)
  then show ?thesis
    by (cases r; cases "task w") (simp_all add: getAllKeysCallback_def Let_def)
next
  case (MultiGetSettled r)
  then show ?thesis
    by (cases r; cases "task w") (simp_all add: multiGetCallback_def)
qed (simp_all add: setItem_fields removeItem_fields frame_clear)

lemma run_keyPrefix: "keyPrefix (run evs w) = keyPrefix w"
  by (induction evs arbitrary: w) (auto simp: step_keyPrefix)

lemma call_agrees:
  assumes "is_call e" and "items w1 = items w2" and "keyPrefix w1 = keyPrefix w2"
  shows "items (step e w1) = items (step e w2) \<and> keyPrefix (step e w1) = keyPrefix (step e w2)
         \<and> task (step e w1) = task w1"
  using assms
  by (cases e) (simp_all add: setItem_fields removeItem_fields frame_clear items_clear)

lemma settled_after_done:
  assumes "\<not> is_call e" and "task w = TaskDone"
  shows "items (step e w) = items w \<and> keyPrefix (step e w) = keyPrefix w
         \<and> task (step e w) = TaskDone"
  using assms by (cases e) simp_all

lemma run_after_done:
  "task w1 = TaskDone \<Longrightarrow> items w1 = items w2 \<Longrightarrow> keyPrefix w1 = keyPrefix w2 \<Longrightarrow>
   items (run evs w1) = items (run (filter is_call evs) w2)"
proof (induction evs arbitrary: w1 w2)
  case Nil
  then show ?case by simp
next
  case (Cons e evs)
  show ?case
  proof (cases "is_call e")
    case True
    from call_agrees[OF True Cons.prems(2,3)] Cons.prems(1)
    have "task (step e w1) = TaskDone" "items (step e w1) = items (step e w2)"
      "keyPrefix (step e w1) = keyPrefix (step e w2)"
      by simp_all
    from Cons.IH[OF this] True show ?thesis by simp
  next
    case False
    from settled_after_done[OF False Cons.prems(1)] Cons.prems
    have "task (step e w1) = TaskDone" "items (step e w1) = items w2"
      "keyPrefix (step e w1) = keyPrefix w2"
      by simp_all
    from Cons.IH[OF this] False show ?thesis by simp
  qed
qed

text \<open>
  C8. A rejected \<^verbatim>\<open>getAllKeys\<close> or \<^verbatim>\<open>multiGet\<close> promise ends the reconciliation: from then on
  \<open>items\<close> is what the caller's own calls make of it, whatever settles later, so nothing
  is merged and nothing is lost. A rejected \<^verbatim>\<open>setItem\<close> or \<^verbatim>\<open>removeItem\<close> promise changes
  nothing at all, as a fulfilled one does. No method has an error result: the rejections
  have no callback in the class.
\<close>

theorem backend_failures_are_invisible:
  "(task w = AwaitingKeys \<longrightarrow>
      items (run evs (step (GetAllKeysSettled None) w)) = items (run (filter is_call evs) w))
   \<and> (task w = AwaitingValues keys \<longrightarrow>
      items (run evs (step (MultiGetSettled None) w)) = items (run (filter is_call evs) w))
   \<and> step (WriteSettled False) w = w"
proof -
  have "items (run evs (w\<lparr>task := TaskDone\<rparr>)) = items (run (filter is_call evs) w)"
    by (rule run_after_done) simp_all
  then show ?thesis by simp
qed

text \<open>
  With prefix \<^verbatim>\<open>"p"\<close>: \<^verbatim>\<open>getAllKeys\<close> fails, the caller writes, and a late \<^verbatim>\<open>multiGet\<close> result
  finds no promise to settle; next to it, \<^verbatim>\<open>multiGet\<close> fails after the caller's write.
\<close>

theorem backend_failures_are_invisible_witness:
  "task (construct (JStr ''p'')) = AwaitingKeys
   \<and> getItem (run [SetItem ''a'' (JStr ''1''), MultiGetSettled (Some [(''pb'', JStr ''2'')])]
               (step (GetAllKeysSettled None) (construct (JStr ''p'')))) ''a'' = JStr ''1''
   \<and> getItem (run [SetItem ''a'' (JStr ''1''), MultiGetSettled (Some [(''pb'', JStr ''2'')])]
               (step (GetAllKeysSettled None) (construct (JStr ''p'')))) ''b'' = JNull
   \<and> task (step (GetAllKeysSettled (Some [''pb''])) (construct (JStr ''p'')))
       = AwaitingValues [''pb'']
   \<and> getItem (run [SetItem ''a'' (JStr ''1'')]
               (step (MultiGetSettled None)
                 (step (GetAllKeysSettled (Some [''pb''])) (construct (JStr ''p''))))) ''b''
       = JNull"
proof -
  have t1: "task (construct (JStr ''p'')) = AwaitingKeys"
    by (simp add: construct_def)
  have t2: "task (step (GetAllKeysSettled (Some [''pb''])) (construct (JStr ''p'')))
            = AwaitingValues [''pb'']"
    by (simp add: construct_def getAllKeysCallback_def Let_def)
  from backend_failures_are_invisible[of "construct (JStr ''p'')"
      "[SetItem ''a'' (JStr ''1''), MultiGetSettled (Some [(''pb'', JStr ''2'')])]" "[]"] t1
  have a: "items (run [SetItem ''a'' (JStr ''1''), MultiGetSettled (Some [(''pb'', JStr ''2'')])]
               (step (GetAllKeysSettled None) (construct (JStr ''p''))))
           = items (run [SetItem ''a'' (JStr ''1'')] (construct (JStr ''p'')))"
    by simp
  from backend_failures_are_invisible[of
      "step (GetAllKeysSettled (Some [''pb''])) (construct (JStr ''p''))"
      "[SetItem ''a'' (JStr ''1'')]" "[''pb'']"] t2
  have b: "items (run [SetItem ''a'' (JStr ''1'')]
               (step (MultiGetSettled None)
                 (step (GetAllKeysSettled (Some [''pb''])) (construct (JStr ''p'')))))
           = items (run [SetItem ''a'' (JStr ''1'')]
                 (step (GetAllKeysSettled (Some [''pb''])) (construct (JStr ''p''))))"
    by simp
  show ?thesis
    unfolding getItem_def a b
    by (simp add: construct_def setItem_def getAllKeysCallback_def Let_def)
qed

section \<open>A null prefix\<close>

text \<open>
  C9. Constructed with \<^verbatim>\<open>keyPrefix\<close> \<^verbatim>\<open>null\<close>, the instance starts the reconciliation
  (\<^verbatim>\<open>getAllKeys\<close> is called and its promise is pending), keeps the backend keys that
  start with \<^verbatim>\<open>"null"\<close>, and in every state reached later persists each write and each
  removal under the backend name \<^verbatim>\<open>"null"\<close> followed by the key.
\<close>

theorem null_prefix_is_a_prefix:
  "task (construct JNull) = AwaitingKeys
   \<and> calls (construct JNull) = [AsyncStorage_getAllKeys]
   \<and> calls (step (GetAllKeysSettled (Some allKeys)) (construct JNull)) =
       [AsyncStorage_getAllKeys,
        AsyncStorage_multiGet (filter (\<lambda>q. startsWith q ''null'') allKeys)]
   \<and> calls (setItem k v (run evs (construct JNull))) =
       calls (run evs (construct JNull)) @ [AsyncStorage_setItem (''null'' @ k) (js_String v)]
   \<and> calls (removeItem k (run evs (construct JNull))) =
       calls (run evs (construct JNull)) @ [AsyncStorage_removeItem (''null'' @ k)]"
proof -
  have "keyPrefix (run evs (construct JNull)) = JNull"
    by (simp add: run_keyPrefix construct_def)
  then show ?thesis
    by (simp add: construct_def getAllKeysCallback_def setItem_def removeItem_def Let_def)
qed

section \<open>A null value from the backend\<close>

lemma map_of_stripped_const:
  "(q0, v0) \<in> set result \<Longrightarrow> f q0 = k \<Longrightarrow>
   \<forall>(q, v)\<in>set result. f q = k \<longrightarrow> v = c \<Longrightarrow>
   map_of (map (\<lambda>(q, v). (f q, v)) result) k = Some c"
  by (induction result) auto

text \<open>
  C10. The merge step runs on an instance with the string prefix \<open>p\<close> whose \<open>items\<close> does
  not hold \<open>k\<close>, and the multiGet result has the pair \<open>(p @ k, null)\<close> (and no other value
  for that logical key). Then the merge stores \<^verbatim>\<open>null\<close> itself under \<open>k\<close>: afterwards
  \<^verbatim>\<open>has(k)\<close> is true, the keys of \<open>items\<close> include \<open>k\<close>, the length has grown, and
  \<^verbatim>\<open>getItem(k)\<close> returns \<^verbatim>\<open>null\<close>, which is also what an absent key gives. The stored value
  is not a string.
\<close>

theorem merge_stores_null_verbatim:
  assumes "keyPrefix w = JStr p"
    and "\<not> jsmap_has (items w) k"
    and "(p @ k, JNull) \<in> set result"
    and "\<forall>(q, v)\<in>set result. drop (length p) q = k \<longrightarrow> v = JNull"
  shows "jsmap_has (items (multiGetCallback result w)) k
         \<and> jsmap_get (items (multiGetCallback result w)) k = JNull
         \<and> k \<in> set (jsmap_keys (items (multiGetCallback result w)))
         \<and> length_items w < length_items (multiGetCallback result w)
         \<and> getItem (multiGetCallback result w) k = JNull"
proof -
  let ?w' = "multiGetCallback result w"
  have absent: "view w k = None"
    using assms(2) by (simp add: view_def jsmap_has_live)
  have "loaded (keyPrefix w) result k = Some JNull"
    unfolding loaded_def assms(1) keyPrefixLength.simps
    by (rule map_of_stripped_const[OF assms(3) _ assms(4)]) simp
  with absent have v: "view ?w' k = Some JNull"
    by (simp add: view_multiGetCallback map_add_def)
  then have has: "jsmap_has (items ?w') k"
    by (simp add: view_def jsmap_has_live)
  from v have get: "jsmap_get (items ?w') k = JNull"
    by (simp add: view_def jsmap_get_live)
  from v have inkeys: "k \<in> set (jsmap_keys (items ?w'))"
    unfolding view_def jsmap_keys_def by (auto dest: map_of_SomeD intro: rev_image_eqI)
  from absent have notin: "k \<notin> set (jsmap_keys (items w))"
    by (simp add: view_def jsmap_keys_def map_of_eq_None_iff)
  obtain xs where xs: "live (items ?w') = live (items w) @ xs"
    using merge_loop_extends[of "keyPrefixLength (keyPrefix w)" result "items w"]
    by (auto simp: multiGetCallback_def)
  with inkeys notin have "xs \<noteq> []"
    by (auto simp: jsmap_keys_def)
  with xs have "length_items w < length_items ?w'"
    by (simp add: length_items_def jsmap_size_def)
  with has get inkeys show ?thesis
    by (simp add: getItem_def)
qed

text \<open>
  The caller removes \<^verbatim>\<open>"k"\<close>, the backend carries the removal out before it answers
  \<^verbatim>\<open>multiGet\<close>, and the answer holds \<^verbatim>\<open>("pk", null)\<close>.
\<close>

theorem merge_stores_null_verbatim_witness:
  "length_items (step (GetAllKeysSettled (Some [''pk''])) (construct (JStr ''p''))) = 0
   \<and> length_items (multiGetCallback (backend_multiGet [] [''pk''])
        (step (GetAllKeysSettled (Some [''pk''])) (construct (JStr ''p'')))) = 1
   \<and> jsmap_has (items (multiGetCallback (backend_multiGet [] [''pk''])
        (step (GetAllKeysSettled (Some [''pk''])) (construct (JStr ''p''))))) ''k''
   \<and> getItem (multiGetCallback (backend_multiGet [] [''pk''])
        (step (GetAllKeysSettled (Some [''pk''])) (construct (JStr ''p'')))) ''k'' = JNull"
proof -
  let ?w = "step (GetAllKeysSettled (Some [''pk''])) (construct (JStr ''p''))"
  let ?r = "backend_multiGet [] [''pk'']"
  have w: "?w = \<lparr>items = [], keyPrefix = JStr ''p'', task = AwaitingValues [''pk''],
                 calls = [AsyncStorage_getAllKeys, AsyncStorage_multiGet [''pk'']]\<rparr>"
    by (simp add: construct_def getAllKeysCallback_def Let_def)
  have h1: "keyPrefix ?w = JStr ''p''" unfolding w by simp
  have h2: "\<not> jsmap_has (items ?w) ''k''" unfolding w by simp
  have h3: "(''p'' @ ''k'', JNull) \<in> set ?r" by (simp add: backend_multiGet_def)
  have h4: "\<forall>(q, v)\<in>set ?r. drop (length ''p'') q = ''k'' \<longrightarrow> v = JNull"
    by (simp add: backend_multiGet_def)
  have l0: "length_items ?w = 0"
    unfolding w by (simp add: length_items_def jsmap_size_def)
  have l1: "length_items (multiGetCallback ?r ?w) = 1"
    unfolding w
    by (simp add: length_items_def jsmap_size_def multiGetCallback_def backend_multiGet_def)
  from merge_stores_null_verbatim[OF h1 h2 h3 h4] l0 l1 show ?thesis
    by simp
qed

end
